theory Spec2Isabelle
  imports Main "HOL-Library.Sublist"
begin

section \<open>Messages and the shared conversation state\<close>

text \<open>
  The orchestration service (\<^verbatim>\<open>StateGraphService\<close>) keeps one state object per run:
  a list of messages and the name of the last sender. A message is what the
  LangChain message classes carry as far as this program reads them:
  \<^item> \<open>role\<close>: \<^verbatim>\<open>HumanMessage\<close> and the seed \<^verbatim>\<open>{role: 'user'}\<close> are \<open>user\<close>,
    \<^verbatim>\<open>AIMessage\<close> is \<open>assistant\<close>, \<^verbatim>\<open>ToolMessage\<close> is \<open>tool\<close>;
  \<^item> \<open>content\<close>: a string, or something that is not a string (a list of content
    blocks, or \<^verbatim>\<open>undefined\<close>), of which the program only ever asks \<^verbatim>\<open>typeof\<close>;
  \<^item> \<open>name\<close>: optional;
  \<^item> \<open>tool_calls\<close>: \<open>None\<close> when the object has no \<^verbatim>\<open>tool_calls\<close> array (every message
    that is not an \<^verbatim>\<open>AIMessage\<close>), \<open>Some cs\<close> otherwise;
  \<^item> \<open>tool_call_id\<close>: set on tool results only.
  Strings are lists of code units.
\<close>

datatype role = system | user | assistant | tool

datatype content = Text string | NonText

record ToolCall =
  tc_id :: string
  tc_name :: string
  tc_args :: string

record BaseMessage =
  role :: role
  content :: content
  name :: "string option"
  tool_calls :: "ToolCall list option"
  tool_call_id :: "string option"

record AgentState =
  messages :: "BaseMessage list"
  sender :: string

text \<open>
  Failures. \<open>TypeError\<close> is JavaScript's own (a property read on \<^verbatim>\<open>undefined\<close>),
  \<open>BadRequestException\<close> is thrown by the knowledge service, \<open>InvalidDestination\<close> is
  the graph library's error for a route label that the node's edge map does not have.
  The others are the failures of the design's taxonomy: \<open>InputError\<close>,
  \<open>ModelInvocationError\<close>, \<open>UnknownToolError\<close>, \<open>RecursionLimitExceeded\<close>,
  \<open>ToolExecutionError\<close>.
\<close>

datatype error =
    TypeError
  | BadRequestException
  | InvalidDestination
  | InputError
  | ModelInvocationError
  | UnknownToolError
  | RecursionLimitExceeded
  | ToolExecutionError

section \<open>String and array helpers of the host language\<close>

text \<open>\<^verbatim>\<open>String.prototype.includes\<close>: does \<open>pat\<close> occur in \<open>s\<close> as a contiguous run.\<close>

fun str_includes :: "string \<Rightarrow> string \<Rightarrow> bool" where
  "str_includes [] pat = (pat = [])"
| "str_includes (c # cs) pat = (prefix pat (c # cs) \<or> str_includes cs pat)"

text \<open>\<^verbatim>\<open>Array.prototype.findIndex\<close>: the first index whose element satisfies \<open>p\<close>, or \<open>-1\<close>.\<close>

fun findIndex :: "('a \<Rightarrow> bool) \<Rightarrow> 'a list \<Rightarrow> int" where
  "findIndex p [] = -1"
| "findIndex p (x # xs) =
     (if p x then 0 else (let i = findIndex p xs in if i = -1 then -1 else i + 1))"

text \<open>\<^verbatim>\<open>messages[messages.length - 1]\<close>: \<^verbatim>\<open>undefined\<close> (here \<open>None\<close>) on the empty array.\<close>

definition lastOf :: "'a list \<Rightarrow> 'a option" where
  "lastOf xs = (if xs = [] then None else Some (last xs))"

section \<open>The router\<close>

text \<open>
  \<^verbatim>\<open>
  function router(state): string {
    const messages = state.messages;
    const lastMessage = messages[messages.length - 1] as AIMessage;
    if (lastMessage?.tool_calls && lastMessage.tool_calls.length > 0) return 'call_tool';
    if (typeof lastMessage.content === 'string' &&
        lastMessage.content.includes('FINAL ANSWER')) return 'end';
    return 'continue';
  }
  \<close>
  The first test guards the read with \<^verbatim>\<open>?.\<close>; the second reads \<^verbatim>\<open>lastMessage.content\<close>
  unguarded, which throws a \<^verbatim>\<open>TypeError\<close> when \<^verbatim>\<open>lastMessage\<close> is \<^verbatim>\<open>undefined\<close>.
\<close>

definition has_tool_calls :: "BaseMessage \<Rightarrow> bool" where
  "has_tool_calls m = (case tool_calls m of None \<Rightarrow> False | Some cs \<Rightarrow> length cs > 0)"

definition router :: "AgentState \<Rightarrow> error + string" where
  "router state =
     (let lastMessage = lastOf (messages state) in
      if (case lastMessage of None \<Rightarrow> False | Some m \<Rightarrow> has_tool_calls m)
      then Inr ''call_tool''
      else (case lastMessage of
              None \<Rightarrow> Inl TypeError
            | Some m \<Rightarrow>
                (case content m of
                   Text c \<Rightarrow> if str_includes c ''FINAL ANSWER'' then Inr ''end''
                             else Inr ''continue''
                 | NonText \<Rightarrow> Inr ''continue'')))"

section \<open>The knowledge service\<close>

text \<open>
  \<^verbatim>\<open>String.prototype.trim\<close> removes white space and line terminators from both ends.
  Over code units below 256 these are tab, line feed, vertical tab, form feed, carriage
  return, space and the no-break space.
\<close>

definition isWhiteSpace :: "char \<Rightarrow> bool" where
  "isWhiteSpace c = ((of_char c :: nat) \<in> {9, 10, 11, 12, 13, 32, 160})"

definition trim :: "string \<Rightarrow> string" where
  "trim s = rev (dropWhile isWhiteSpace (rev (dropWhile isWhiteSpace s)))"

record Document =
  pageContent :: string
  metadata :: string

type_synonym embedding = "int list"

text \<open>A similarity score is a number that the service only copies.\<close>

type_synonym score = int

text \<open>
  The service owns an embedding client and a vector store. \<open>embedQuery\<close> is the
  embedding client's answer to a query (a call that fails is outside this model).
  \<open>ranked\<close> is the content of the store as the search sees it: for an embedding, every
  stored document with its score, best first.
\<close>

record KnowledgeService =
  embedQuery :: "string \<Rightarrow> embedding"
  ranked :: "embedding \<Rightarrow> (Document \<times> score) list"

text \<open>
  Modelled from the spec: \<^verbatim>\<open>MemoryVectorStore.similaritySearchVectorWithScore\<close> belongs
  to the vector store library and is not part of the sources. The spec gives the search of
  the store as an ordered list of the top \<open>k\<close> results.
\<close>

definition similaritySearchVectorWithScore ::
  "KnowledgeService \<Rightarrow> embedding \<Rightarrow> nat \<Rightarrow> (Document \<times> score) list" where
  "similaritySearchVectorWithScore ks e k = take k (ranked ks e)"

record SearchEntry =
  entry_content :: string
  entry_metadata :: string
  entry_score :: score

record SearchResponse =
  message :: string
  results :: "SearchEntry list"

definition e_acute :: char where
  "e_acute = char_of (233 :: nat)"

definition msg_none_found :: string where
  "msg_none_found = ''Aucun r'' @ [e_acute] @ ''sultat trouv'' @ [e_acute]
     @ ''. Assurez-vous que des documents ont '' @ [e_acute] @ ''t'' @ [e_acute]
     @ '' ing'' @ [e_acute] @ ''r'' @ [e_acute] @ ''s.''"

definition msg_found :: string where
  "msg_found = ''r'' @ [e_acute] @ ''sultat trouv'' @ [e_acute]"

text \<open>
  \<^verbatim>\<open>
  async search(query: string) {
    if (!query || query.trim() === '') throw new BadRequestException(...);
    const embedding = await this.embeddings.embedQuery(query);
    const results = await this.vectorStore.similaritySearchVectorWithScore(embedding, 1);
    if (results.length === 0) return { message: 'Aucun ...', results: [] };
    return { message: '...', results: results.map(([doc, score]) => ({
        content: doc.pageContent, metadata: doc.metadata, score: score })) };
  }
  \<close>
  The query is \<open>None\<close> when the request body has none.
\<close>

definition search :: "KnowledgeService \<Rightarrow> string option \<Rightarrow> error + SearchResponse" where
  "search ks query =
     (case query of
        None \<Rightarrow> Inl BadRequestException
      | Some q \<Rightarrow>
          if q = [] \<or> trim q = [] then Inl BadRequestException
          else
            (let embedding = embedQuery ks q;
                 results = similaritySearchVectorWithScore ks embedding 1
             in if length results = 0
                then Inr \<lparr> message = msg_none_found, results = [] \<rparr>
                else Inr \<lparr> message = msg_found,
                           results = map (\<lambda>(doc, score).
                             \<lparr> entry_content = pageContent doc,
                               entry_metadata = metadata doc,
                               entry_score = score \<rparr>) results \<rparr>))"

section \<open>Agents, tools and nodes\<close>

text \<open>
  What a run depends on from outside. Each agent is a language model bound to a prompt and
  a tool catalogue; its reply to the state it is shown is not determined by this program,
  so it is a parameter, indexed by the number of steps taken so far (two calls with the
  same state may answer differently). \<open>None\<close> is a failed model call. The web search
  tool is a parameter in the same way; \<open>stringify\<close> is \<^verbatim>\<open>JSON.stringify\<close>.
\<close>

record env =
  coordinatorAgent :: "nat \<Rightarrow> AgentState \<Rightarrow> BaseMessage option"
  knowledgeAgent :: "nat \<Rightarrow> AgentState \<Rightarrow> BaseMessage option"
  tavilyAgent :: "nat \<Rightarrow> AgentState \<Rightarrow> BaseMessage option"
  knowledgeService :: KnowledgeService
  stringify :: "SearchResponse \<Rightarrow> string"
  tavilyToolName :: string
  tavilyTool :: "nat \<Rightarrow> string \<Rightarrow> string option"

text \<open>
  The knowledge tool, registered under the name \<open>rag_search\<close>:
  \<^verbatim>\<open>
  async (input: string) => {
    const result = await this.knowledgeService.search(input);
    return typeof result === 'string' ? result : JSON.stringify(result);
  }
  \<close>
\<close>

definition knowledgeTool :: "env \<Rightarrow> string \<Rightarrow> error + string" where
  "knowledgeTool env input =
     (case search (knowledgeService env) (Some input) of
        Inl e \<Rightarrow> Inl e
      | Inr result \<Rightarrow> Inr (stringify env result))"

text \<open>
  A node returns an update of the state, which the graph folds into the channels with
  their reducers: \<^verbatim>\<open>(x, y) => x.concat(y)\<close> for \<open>messages\<close> and
  \<^verbatim>\<open>(x, y) => y ?? x ?? 'user'\<close> for \<open>sender\<close>.
\<close>

record Update =
  u_messages :: "BaseMessage list"
  u_sender :: "string option"

definition messages_reducer :: "BaseMessage list \<Rightarrow> BaseMessage list \<Rightarrow> BaseMessage list" where
  "messages_reducer x y = x @ y"

definition sender_reducer :: "string option \<Rightarrow> string option \<Rightarrow> string" where
  "sender_reducer x y =
     (case y of Some v \<Rightarrow> v | None \<Rightarrow> (case x of Some v \<Rightarrow> v | None \<Rightarrow> ''user''))"

definition apply_update :: "AgentState \<Rightarrow> Update \<Rightarrow> AgentState" where
  "apply_update state u =
     \<lparr> messages = messages_reducer (messages state) (u_messages u),
       sender = sender_reducer (Some (sender state)) (u_sender u) \<rparr>"

text \<open>
  \<^verbatim>\<open>new HumanMessage(init)\<close> keeps the content and the name of \<open>init\<close>; the object
  it builds is a human message and has no \<^verbatim>\<open>tool_calls\<close> property.
\<close>

definition HumanMessage :: "BaseMessage \<Rightarrow> BaseMessage" where
  "HumanMessage init =
     \<lparr> role = user, content = content init, name = name init,
       tool_calls = None, tool_call_id = None \<rparr>"

text \<open>
  \<^verbatim>\<open>
  async function runAgentNode({ state, agent, name, config }) {
    let result = await agent.invoke(state, config);
    // Si l'agent n'appelle pas d'outil, on convertit le resultat en message humain
    if (!result?.tool_calls || result.tool_calls.length === 0) {
      result = new HumanMessage({ ...result, name: name });
    }
    return { messages: [result], sender: name };
  }
  \<close>
\<close>

definition runAgentNode ::
  "(AgentState \<Rightarrow> BaseMessage option) \<Rightarrow> string \<Rightarrow> AgentState \<Rightarrow> error + Update" where
  "runAgentNode agent nm state =
     (case agent state of
        None \<Rightarrow> Inl ModelInvocationError
      | Some result \<Rightarrow>
          (let result' =
                 (if tool_calls result = None \<or> length (the (tool_calls result)) = 0
                  then HumanMessage (result \<lparr> name := Some nm \<rparr>)
                  else result)
           in Inr \<lparr> u_messages = [result'], u_sender = Some nm \<rparr>))"

text \<open>
  The filter of the Tavily node:
  \<^verbatim>\<open>
  state.messages.filter((e) => {
    if ('tool_calls' in e && Array.isArray(e.tool_calls) && e.tool_calls.length > 0)
      return e.tool_calls.findIndex((toolCall) => toolCall.name === 'rag_search') === -1;
    else return !['Rag', 'rag_search'].includes(e.name);
  })
  \<close>
\<close>

definition tavily_keeps :: "BaseMessage \<Rightarrow> bool" where
  "tavily_keeps e =
     (if (case tool_calls e of None \<Rightarrow> False | Some cs \<Rightarrow> length cs > 0)
      then findIndex (\<lambda>toolCall. tc_name toolCall = ''rag_search'') (the (tool_calls e)) = -1
      else \<not> (case name e of None \<Rightarrow> False | Some n \<Rightarrow> n \<in> set [''Rag'', ''rag_search'']))"

datatype node = Coordinator | Rag | Tavily | call_tool

definition Coordinator_node :: "env \<Rightarrow> nat \<Rightarrow> AgentState \<Rightarrow> error + Update" where
  "Coordinator_node env i state = runAgentNode (coordinatorAgent env i) ''Coordinator'' state"

definition Rag_node :: "env \<Rightarrow> nat \<Rightarrow> AgentState \<Rightarrow> error + Update" where
  "Rag_node env i state = runAgentNode (knowledgeAgent env i) ''Rag'' state"

text \<open>
  The Tavily node hands its agent \<^verbatim>\<open>{ ...state, messages }\<close>, the state with the filtered
  list in place of the log, and returns the update of \<open>runAgentNode\<close>.
\<close>

definition tavily_view :: "AgentState \<Rightarrow> AgentState" where
  "tavily_view state =
     (let messages' = filter tavily_keeps (messages state)
      in state \<lparr> messages := messages' \<rparr>)"

definition Tavily_node :: "env \<Rightarrow> nat \<Rightarrow> AgentState \<Rightarrow> error + Update" where
  "Tavily_node env i state = runAgentNode (tavilyAgent env i) ''Tavily'' (tavily_view state)"

text \<open>
  Modelled from the spec: the tool node (\<^verbatim>\<open>ToolNode\<close> of the graph library, built here
  from the knowledge tool and the web search tool) is not part of the sources. The spec
  gives it as: inspect the tool calls of the last message; for each, look the tool up by
  name in the registry (knowledge search, web search) and invoke it with the call's
  arguments, producing one tool message per call, tagged with the call's id; a name that
  is not registered fails with \<open>UnknownToolError\<close>, a tool that fails with
  \<open>ToolExecutionError\<close>. \<open>lookup_tool\<close> is the registry.
\<close>

definition lookup_tool :: "env \<Rightarrow> nat \<Rightarrow> string \<Rightarrow> (string \<Rightarrow> error + string) option" where
  "lookup_tool env i nm =
     (if nm = ''rag_search'' then Some (knowledgeTool env)
      else if nm = tavilyToolName env
      then Some (\<lambda>input. case tavilyTool env i input of
                            None \<Rightarrow> Inl ToolExecutionError | Some out \<Rightarrow> Inr out)
      else None)"

text \<open>
  Modelled from the spec: the tool calls of one message, served in order; the first
  failure ends the step.
\<close>

fun run_tool_calls :: "env \<Rightarrow> nat \<Rightarrow> ToolCall list \<Rightarrow> error + BaseMessage list" where
  "run_tool_calls env i [] = Inr []"
| "run_tool_calls env i (c # cs) =
     (case lookup_tool env i (tc_name c) of
        None \<Rightarrow> Inl UnknownToolError
      | Some t \<Rightarrow>
          (case t (tc_args c) of
             Inl e \<Rightarrow> Inl ToolExecutionError
           | Inr out \<Rightarrow>
               (case run_tool_calls env i cs of
                  Inl e \<Rightarrow> Inl e
                | Inr ms \<Rightarrow>
                    Inr (\<lparr> role = tool, content = Text out, name = Some (tc_name c),
                           tool_calls = None, tool_call_id = Some (tc_id c) \<rparr> # ms))))"

text \<open>
  Modelled from the spec: the tool node returns the tool messages and nothing else, so
  the sender channel is not written.
\<close>

definition toolNode :: "env \<Rightarrow> nat \<Rightarrow> AgentState \<Rightarrow> error + Update" where
  "toolNode env i state =
     (let calls = (case lastOf (messages state) of
                     None \<Rightarrow> []
                   | Some lastMessage \<Rightarrow>
                       (case tool_calls lastMessage of None \<Rightarrow> [] | Some cs \<Rightarrow> cs))
      in case run_tool_calls env i calls of
           Inl e \<Rightarrow> Inl e
         | Inr ms \<Rightarrow> Inr \<lparr> u_messages = ms, u_sender = None \<rparr>)"

fun invoke_node :: "env \<Rightarrow> nat \<Rightarrow> node \<Rightarrow> AgentState \<Rightarrow> error + Update" where
  "invoke_node env i Coordinator state = Coordinator_node env i state"
| "invoke_node env i Rag state = Rag_node env i state"
| "invoke_node env i Tavily state = Tavily_node env i state"
| "invoke_node env i call_tool state = toolNode env i state"

section \<open>The edge table\<close>

text \<open>
  \<^verbatim>\<open>
  .addEdge(START, 'Coordinator')
  .addConditionalEdges('Coordinator', router, { continue: 'Rag', end: END })
  .addConditionalEdges('Rag', router, { continue: 'Tavily', call_tool: 'call_tool' })
  .addConditionalEdges('Tavily', router, { continue: 'Coordinator', call_tool: 'call_tool' })
  .addConditionalEdges('call_tool', (state) => state.sender, { Tavily: 'Tavily', Rag: 'Rag' })
  \<close>
  A conditional edge is a path function, which computes a label from the state, and a map
  from labels to destinations.
\<close>

datatype dest = Goto node | END

definition entry_point :: node where
  "entry_point = Coordinator"

fun node_name :: "node \<Rightarrow> string" where
  "node_name Coordinator = ''Coordinator''"
| "node_name Rag = ''Rag''"
| "node_name Tavily = ''Tavily''"
| "node_name call_tool = ''call_tool''"

fun path :: "node \<Rightarrow> AgentState \<Rightarrow> error + string" where
  "path call_tool state = Inr (sender state)"
| "path n state = router state"

fun pathMap :: "node \<Rightarrow> string \<Rightarrow> dest option" where
  "pathMap Coordinator l =
     (if l = ''continue'' then Some (Goto Rag)
      else if l = ''end'' then Some END else None)"
| "pathMap Rag l =
     (if l = ''continue'' then Some (Goto Tavily)
      else if l = ''call_tool'' then Some (Goto call_tool) else None)"
| "pathMap Tavily l =
     (if l = ''continue'' then Some (Goto Coordinator)
      else if l = ''call_tool'' then Some (Goto call_tool) else None)"
| "pathMap call_tool l =
     (if l = ''Tavily'' then Some (Goto Tavily)
      else if l = ''Rag'' then Some (Goto Rag) else None)"

text \<open>
  Modelled from the spec: following a conditional edge belongs to the graph library. The
  edge table maps a node and a label to the next node; a label that the map of the node
  does not have is no transition: the label is resolved when the step runs, and the
  library fails there (the branch has no destination).
\<close>

definition branch :: "node \<Rightarrow> AgentState \<Rightarrow> error + dest" where
  "branch n state =
     (case path n state of
        Inl e \<Rightarrow> Inl e
      | Inr l \<Rightarrow> (case pathMap n l of None \<Rightarrow> Inl InvalidDestination | Some d \<Rightarrow> Inr d))"

section \<open>The executor\<close>

text \<open>
  Modelled from the spec: one step of the executor. Invoke the current node on the state,
  fold its update into the state, and follow the node's conditional edge from the new
  state. A failure of the node or of the edge fails the step.
\<close>

definition step :: "env \<Rightarrow> nat \<Rightarrow> node \<Rightarrow> AgentState \<Rightarrow> error + (AgentState \<times> dest)" where
  "step env i n state =
     (case invoke_node env i n state of
        Inl e \<Rightarrow> Inl e
      | Inr u \<Rightarrow>
          (let state' = apply_update state u
           in case branch n state' of
                Inl e \<Rightarrow> Inl e
              | Inr d \<Rightarrow> Inr (state', d)))"

text \<open>
  Modelled from the spec: the loop that drives the graph (\<^verbatim>\<open>graph.invoke\<close> of the graph
  library) is not part of the sources. The spec gives it as: repeat the step from the
  current node, counting the steps, until the destination is \<open>END\<close>; a failed step fails
  the run; when the step budget is used up and \<open>END\<close> is not reached the run fails with
  \<open>RecursionLimitExceeded\<close>. \<open>exec env k i n state\<close> has \<open>k\<close> steps left of its budget
  and has taken \<open>i\<close>; it returns the number of steps taken and the outcome.
\<close>

fun exec :: "env \<Rightarrow> nat \<Rightarrow> nat \<Rightarrow> node \<Rightarrow> AgentState \<Rightarrow> nat \<times> (error + AgentState)" where
  "exec env 0 i n state = (i, Inl RecursionLimitExceeded)"
| "exec env (Suc k) i n state =
     (case step env i n state of
        Inl e \<Rightarrow> (Suc i, Inl e)
      | Inr (state', END) \<Rightarrow> (Suc i, Inr state')
      | Inr (state', Goto n') \<Rightarrow> exec env k (Suc i) n' state')"

text \<open>
  The entry point of the service:
  \<^verbatim>\<open>
  async run(input: string) {
    return this.graph.invoke({
      messages: [{ role: 'user', content: input }],
      config: { recursionLimit: 25 },
    });
  }
  \<close>
  The question is \<open>None\<close> when the request body has none; the content of the seed message
  is then \<^verbatim>\<open>undefined\<close>, which is not a string. The sender channel starts at its default
  \<open>user\<close>. The limit of 25 steps that \<open>run\<close> writes down is also the default of the
  graph library.
\<close>

definition recursionLimit :: nat where
  "recursionLimit = 25"

definition seed_message :: "string option \<Rightarrow> BaseMessage" where
  "seed_message input =
     \<lparr> role = user, content = (case input of None \<Rightarrow> NonText | Some q \<Rightarrow> Text q),
       name = None, tool_calls = None, tool_call_id = None \<rparr>"

definition initial_state :: "string option \<Rightarrow> AgentState" where
  "initial_state input = \<lparr> messages = [seed_message input], sender = ''user'' \<rparr>"

definition run :: "env \<Rightarrow> string option \<Rightarrow> nat \<times> (error + AgentState)" where
  "run env input = exec env recursionLimit 0 entry_point (initial_state input)"

text \<open>
  The configurations a run can be in: the node about to be invoked, the state it will
  see, and the number of steps taken before.
\<close>

inductive reachable :: "env \<Rightarrow> string option \<Rightarrow> nat \<Rightarrow> node \<Rightarrow> AgentState \<Rightarrow> bool"
  for env :: env and input :: "string option" where
  at_start: "reachable env input 0 entry_point (initial_state input)"
| after_step: "reachable env input i n state \<Longrightarrow> step env i n state = Inr (state', Goto n')
           \<Longrightarrow> reachable env input (Suc i) n' state'"

text \<open>The configurations of a run can be enumerated from its environment and input.\<close>

code_pred (modes: i \<Rightarrow> i \<Rightarrow> o \<Rightarrow> o \<Rightarrow> o \<Rightarrow> bool) reachable .

section \<open>Vocabulary of the properties\<close>

text \<open>
  A model is quiet when it answers every call, never asks for a tool and never writes the
  text FINAL ANSWER.
\<close>

definition quiet :: "(nat \<Rightarrow> AgentState \<Rightarrow> BaseMessage option) \<Rightarrow> bool" where
  "quiet agent =
     (\<forall>i s. \<exists>m. agent i s = Some m \<and> \<not> has_tool_calls m
        \<and> (\<forall>c. content m = Text c \<longrightarrow> \<not> str_includes c ''FINAL ANSWER''))"

text \<open>Where the label \<open>continue\<close> leads from each agent node.\<close>

fun continue_edge :: "node \<Rightarrow> node" where
  "continue_edge Coordinator = Rag"
| "continue_edge Rag = Tavily"
| "continue_edge Tavily = Coordinator"
| "continue_edge call_tool = call_tool"

section \<open>Concrete collaborators for the examples\<close>

text \<open>An agent whose model gives the same reply at every call.\<close>

definition always :: "BaseMessage \<Rightarrow> nat \<Rightarrow> AgentState \<Rightarrow> BaseMessage option" where
  "always m i state = Some m"

text \<open>An agent whose model reads its reply off a script, by the number of the step.\<close>

definition scripted :: "(nat \<Rightarrow> BaseMessage) \<Rightarrow> nat \<Rightarrow> AgentState \<Rightarrow> BaseMessage option" where
  "scripted f i state = Some (f i)"

text \<open>A model reply with the given text and tool calls, as the model client returns it.\<close>

definition reply :: "string \<Rightarrow> ToolCall list \<Rightarrow> BaseMessage" where
  "reply c cs =
     \<lparr> role = assistant, content = Text c, name = None,
       tool_calls = Some cs, tool_call_id = None \<rparr>"

definition rag_call :: ToolCall where
  "rag_call = \<lparr> tc_id = ''call_1'', tc_name = ''rag_search'', tc_args = ''capital of France'' \<rparr>"

definition web_call :: ToolCall where
  "web_call = \<lparr> tc_id = ''call_2'', tc_name = ''tavily_search'', tc_args = ''capital of France'' \<rparr>"

text \<open>A knowledge base of two documents, ranked the same for every query.\<close>

definition demo_service :: KnowledgeService where
  "demo_service =
     \<lparr> embedQuery = (\<lambda>q. [int (length q)]),
       ranked = (\<lambda>e. [(\<lparr> pageContent = ''Paris is the capital of France'', metadata = ''doc1'' \<rparr>, 9),
                     (\<lparr> pageContent = ''Lyon is a city'', metadata = ''doc2'' \<rparr>, 4)]) \<rparr>"

definition empty_service :: KnowledgeService where
  "empty_service = \<lparr> embedQuery = (\<lambda>q. [int (length q)]), ranked = (\<lambda>e. []) \<rparr>"

text \<open>An environment from the replies of the three models, in the order Coordinator, Rag, Tavily.\<close>

definition demo_env :: "BaseMessage \<Rightarrow> BaseMessage \<Rightarrow> BaseMessage \<Rightarrow> env" where
  "demo_env c r t =
     \<lparr> coordinatorAgent = always c, knowledgeAgent = always r, tavilyAgent = always t,
       knowledgeService = demo_service,
       stringify = (\<lambda>res. concat (map entry_content (results res))),
       tavilyToolName = ''tavily_search'',
       tavilyTool = (\<lambda>i q. Some ''Paris'') \<rparr>"

text \<open>The message that \<open>runAgentNode\<close> writes for a reply \<open>c\<close> of agent \<open>nm\<close> without
  tool calls.\<close>

definition named :: "string \<Rightarrow> string \<Rightarrow> BaseMessage" where
  "named nm c =
     \<lparr> role = user, content = Text c, name = Some nm, tool_calls = None,
       tool_call_id = None \<rparr>"

text \<open>
  The models of a run that uses both tools: the Coordinator forwards the question and
  concludes when it is asked again; each specialist first asks for its tool and then
  answers.
\<close>

definition go_then_conclude :: "nat \<Rightarrow> BaseMessage" where
  "go_then_conclude i = (if i = 0 then reply ''go'' [] else reply ''Paris. FINAL ANSWER'' [])"

definition scenario_env :: env where
  "scenario_env =
     \<lparr> coordinatorAgent = scripted go_then_conclude,
       knowledgeAgent =
         scripted (\<lambda>i. if i = 1 then reply '''' [rag_call] else reply ''Paris (documents)'' []),
       tavilyAgent =
         scripted (\<lambda>i. if i = 4 then reply '''' [web_call] else reply ''Paris (web)'' []),
       knowledgeService = demo_service,
       stringify = (\<lambda>res. concat (map entry_content (results res))),
       tavilyToolName = ''tavily_search'',
       tavilyTool = (\<lambda>i q. Some ''Paris'') \<rparr>"

text \<open>The same Coordinator with specialists that answer at once, without tools.\<close>

definition direct_env :: env where
  "direct_env =
     (demo_env (reply ''go'' []) (reply ''doc'' []) (reply ''web'' []))
       \<lparr> coordinatorAgent := scripted go_then_conclude \<rparr>"

section \<open>Properties of the router\<close>

lemma str_includes_sublist: "str_includes s pat = sublist pat s"
  by (induction s) (auto simp: sublist_Cons_right)

lemma router_nonempty: "messages state \<noteq> [] \<Longrightarrow> \<exists>l. router state = Inr l"
  by (simp add: router_def lastOf_def split: content.split)

text \<open>
  Claim C2 (router precedence). Whenever the last message of the state carries at least
  one tool call, the router answers \<open>call_tool\<close>, whatever the content of that message
  is: a string with or without the text FINAL ANSWER, or not a string at all.
\<close>

theorem router_tool_call_precedence:
  assumes "messages state \<noteq> []"
    and "tool_calls (last (messages state)) = Some cs"
    and "cs \<noteq> []"
  shows "router state = Inr ''call_tool''"
  using assms by (simp add: router_def lastOf_def has_tool_calls_def)

theorem router_tool_call_precedence_witness:
  "str_includes ''FINAL ANSWER'' ''FINAL ANSWER''
   \<and> router \<lparr> messages = [reply ''FINAL ANSWER'' [rag_call]], sender = ''Rag'' \<rparr>
       = Inr ''call_tool''"
proof -
  have "router \<lparr> messages = [reply ''FINAL ANSWER'' [rag_call]], sender = ''Rag'' \<rparr>
          = Inr ''call_tool''"
    by (rule router_tool_call_precedence [where cs = "[rag_call]"])
       (simp_all add: reply_def)
  moreover have "str_includes ''FINAL ANSWER'' ''FINAL ANSWER''"
    by simp
  ultimately show ?thesis by simp
qed

text \<open>
  Claim C5 (the router is total), as the code has it. On every state whose message list
  is not empty the router returns one of the three labels \<open>continue\<close>, \<open>call_tool\<close>,
  \<open>end\<close> and raises nothing, also when the last message has no tool calls and its
  content is not a string.
\<close>

theorem router_total_on_nonempty:
  assumes "messages state \<noteq> []"
  shows "router state \<in> {Inr ''continue'', Inr ''call_tool'', Inr ''end''}"
  using assms by (simp add: router_def lastOf_def split: content.split)

theorem router_total_on_nonempty_witness:
  "router \<lparr> messages = [seed_message None], sender = ''user'' \<rparr>
     \<in> {Inr ''continue'', Inr ''call_tool'', Inr ''end''}
   \<and> content (seed_message None) = NonText \<and> tool_calls (seed_message None) = None"
proof -
  have "router \<lparr> messages = [seed_message None], sender = ''user'' \<rparr>
          \<in> {Inr ''continue'', Inr ''call_tool'', Inr ''end''}"
    by (rule router_total_on_nonempty) simp
  then show ?thesis by (simp add: seed_message_def)
qed

text \<open>
  On the empty message list the claim fails: the unguarded read of
  \<^verbatim>\<open>lastMessage.content\<close> throws.
\<close>

theorem router_empty_log_counterexample:
  "router \<lparr> messages = [], sender = ''user'' \<rparr> = Inl TypeError"
  by (simp add: router_def lastOf_def)

section \<open>Properties of the filter of the Tavily node\<close>

lemma findIndex_ge: "- 1 \<le> findIndex p xs"
  by (induction xs) (auto simp: Let_def)

lemma findIndex_none: "(findIndex p xs = - 1) = (\<forall>x\<in>set xs. \<not> p x)"
proof (induction xs)
  case Nil
  show ?case by simp
next
  case (Cons x xs)
  then show ?case
    using findIndex_ge [of p xs] by (auto simp: Let_def)
qed

lemma tavily_keeps_no_rag_call:
  "tavily_keeps e \<Longrightarrow> tool_calls e = Some cs \<Longrightarrow> c \<in> set cs \<Longrightarrow> tc_name c \<noteq> ''rag_search''"
  by (auto simp: tavily_keeps_def findIndex_none split: if_splits)

lemma tavily_keeps_name:
  "tavily_keeps e \<Longrightarrow> \<not> has_tool_calls e \<Longrightarrow>
     name e \<noteq> Some ''Rag'' \<and> name e \<noteq> Some ''rag_search''"
  by (auto simp: tavily_keeps_def has_tool_calls_def split: if_splits option.splits)

lemma messages_tavily_view:
  "messages (tavily_view state) = filter tavily_keeps (messages state)"
  by (simp add: tavily_view_def)

text \<open>
  Claim C3 (the view of the web-search agent), as the code has it. For every log, the
  filtered view handed to the Tavily agent holds no message with a tool call to
  \<open>rag_search\<close>, and no message without tool calls whose name is \<open>Rag\<close> or
  \<open>rag_search\<close>. The name is only looked at when the message carries no tool calls.
\<close>

theorem tavily_view_excludes_rag:
  "\<forall>e \<in> set (messages (tavily_view state)).
     (\<forall>cs. tool_calls e = Some cs \<longrightarrow> (\<forall>c \<in> set cs. tc_name c \<noteq> ''rag_search''))
     \<and> (\<not> has_tool_calls e \<longrightarrow> name e \<noteq> Some ''Rag'' \<and> name e \<noteq> Some ''rag_search'')"
  using tavily_keeps_no_rag_call tavily_keeps_name
  by (auto simp: messages_tavily_view)

text \<open>
  A log with the question, the Rag agent's tool call, the tool's result, the Rag agent's
  answer and a web search request: the view keeps the first and the last.
\<close>

theorem tavily_view_excludes_rag_witness:
  "messages (tavily_view
      \<lparr> messages = [seed_message (Some ''q''), reply '''' [rag_call],
          \<lparr> role = tool, content = Text ''Paris'', name = Some ''rag_search'',
            tool_calls = None, tool_call_id = Some ''call_1'' \<rparr>,
          HumanMessage ((reply ''Paris'' []) \<lparr> name := Some ''Rag'' \<rparr>),
          reply '''' [web_call]],
        sender = ''Tavily'' \<rparr>)
     = [seed_message (Some ''q''), reply '''' [web_call]]
   \<and> tc_name web_call \<noteq> ''rag_search''
   \<and> name (seed_message (Some ''q'')) \<noteq> Some ''Rag''"
proof -
  let ?log = "[seed_message (Some ''q''), reply '''' [rag_call],
          \<lparr> role = tool, content = Text ''Paris'', name = Some ''rag_search'',
            tool_calls = None, tool_call_id = Some ''call_1'' \<rparr>,
          HumanMessage ((reply ''Paris'' []) \<lparr> name := Some ''Rag'' \<rparr>),
          reply '''' [web_call]]"
  let ?state = "\<lparr> messages = ?log, sender = ''Tavily'' \<rparr>"
  have view: "messages (tavily_view ?state) = [seed_message (Some ''q''), reply '''' [web_call]]"
    by (simp add: tavily_view_def tavily_keeps_def seed_message_def reply_def rag_call_def
          web_call_def HumanMessage_def)
  have "\<forall>e \<in> set [seed_message (Some ''q''), reply '''' [web_call]].
     (\<forall>cs. tool_calls e = Some cs \<longrightarrow> (\<forall>c \<in> set cs. tc_name c \<noteq> ''rag_search''))
     \<and> (\<not> has_tool_calls e \<longrightarrow> name e \<noteq> Some ''Rag'' \<and> name e \<noteq> Some ''rag_search'')"
    using tavily_view_excludes_rag [of ?state] unfolding view .
  then have "tc_name web_call \<noteq> ''rag_search''
      \<and> name (seed_message (Some ''q'')) \<noteq> Some ''Rag''"
    by (simp add: reply_def seed_message_def has_tool_calls_def)
  with view show ?thesis by simp
qed

text \<open>
  The claim as stated fails on a message that has the name \<open>Rag\<close> and a tool call to
  another tool: the first branch of the filter keeps it without reading its name.
\<close>

theorem tavily_view_named_rag_counterexample:
  "(reply ''x'' [web_call]) \<lparr> name := Some ''Rag'' \<rparr>
     \<in> set (messages (tavily_view
          \<lparr> messages = [(reply ''x'' [web_call]) \<lparr> name := Some ''Rag'' \<rparr>],
            sender = ''Rag'' \<rparr>))
   \<and> name ((reply ''x'' [web_call]) \<lparr> name := Some ''Rag'' \<rparr>) = Some ''Rag''"
  by (simp add: tavily_view_def tavily_keeps_def reply_def web_call_def)

section \<open>Properties of the agent nodes\<close>

lemma runAgentNode_error:
  "runAgentNode agent nm state = Inl e \<Longrightarrow> e = ModelInvocationError"
  by (auto simp: runAgentNode_def Let_def split: option.splits)

lemma runAgentNode_update:
  "runAgentNode agent nm state = Inr u \<Longrightarrow> \<exists>m. u_messages u = [m] \<and> u_sender u = Some nm"
  by (auto simp: runAgentNode_def Let_def split: option.splits)

text \<open>
  Claim C6 (re-tagging a reply without tool calls), as the code has it. When the model's
  reply carries no tool call, the node appends a human message (role \<open>user\<close>, not
  \<open>assistant\<close>) with the content of the reply and the name of the invoking agent, and
  the sender it returns is that name.
\<close>

theorem runAgentNode_retags_as_human:
  assumes "agent state = Some result"
    and "\<not> has_tool_calls result"
  shows "runAgentNode agent nm state =
           Inr \<lparr> u_messages = [\<lparr> role = user, content = content result, name = Some nm,
                                  tool_calls = None, tool_call_id = None \<rparr>],
                 u_sender = Some nm \<rparr>"
  using assms
  by (auto simp: runAgentNode_def has_tool_calls_def HumanMessage_def split: option.splits)

theorem runAgentNode_retags_as_human_witness:
  "always (reply ''hello'' []) 0 (initial_state (Some ''q'')) = Some (reply ''hello'' [])
   \<and> \<not> has_tool_calls (reply ''hello'' [])
   \<and> runAgentNode (always (reply ''hello'' []) 0) ''Coordinator'' (initial_state (Some ''q'')) =
       Inr \<lparr> u_messages = [\<lparr> role = user, content = Text ''hello'', name = Some ''Coordinator'',
                              tool_calls = None, tool_call_id = None \<rparr>],
             u_sender = Some ''Coordinator'' \<rparr>"
proof -
  have a: "always (reply ''hello'' []) 0 (initial_state (Some ''q'')) = Some (reply ''hello'' [])"
    by (simp add: always_def)
  have b: "\<not> has_tool_calls (reply ''hello'' [])"
    by (simp add: has_tool_calls_def reply_def)
  have "runAgentNode (always (reply ''hello'' []) 0) ''Coordinator'' (initial_state (Some ''q'')) =
       Inr \<lparr> u_messages = [\<lparr> role = user, content = content (reply ''hello'' []),
                              name = Some ''Coordinator'', tool_calls = None,
                              tool_call_id = None \<rparr>],
             u_sender = Some ''Coordinator'' \<rparr>"
    using a b
    by (rule runAgentNode_retags_as_human
          [where agent = "always (reply ''hello'' []) 0" and result = "reply ''hello'' []"])
  with a b show ?thesis by (simp add: reply_def)
qed

text \<open>
  The claim as stated fails: the message appended for a reply without tool calls has the
  role \<open>user\<close>, where the claim says \<open>assistant\<close>.
\<close>

theorem runAgentNode_role_counterexample:
  "runAgentNode (always (reply ''hello'' []) 0) ''Rag'' (initial_state (Some ''q'')) =
     Inr \<lparr> u_messages = [\<lparr> role = user, content = Text ''hello'', name = Some ''Rag'',
                            tool_calls = None, tool_call_id = None \<rparr>],
           u_sender = Some ''Rag'' \<rparr>
   \<and> user \<noteq> assistant"
  by (simp add: runAgentNode_def always_def reply_def HumanMessage_def)

section \<open>Properties of the knowledge service\<close>

text \<open>
  Claim C9 (search of the knowledge service), as the code has it. For every query that
  is not empty after trimming white space, the search returns, without error, the first
  result of the store's ranking and no more: a list of at most one entry, with the
  content, metadata and score of that result; when the store has no result the list is
  empty and the answer is still not an error.
\<close>

theorem search_at_most_one:
  assumes "trim q \<noteq> []"
  shows "\<exists>r. search ks (Some q) = Inr r
           \<and> length (results r) \<le> 1
           \<and> results r = map (\<lambda>(doc, score).
                 \<lparr> entry_content = pageContent doc, entry_metadata = metadata doc,
                   entry_score = score \<rparr>) (take 1 (ranked ks (embedQuery ks q)))
           \<and> (ranked ks (embedQuery ks q) = [] \<longrightarrow> results r = [])"
  using assms
  by (auto simp: search_def trim_def similaritySearchVectorWithScore_def Let_def)

theorem search_at_most_one_witness:
  "trim ''capital'' \<noteq> []
   \<and> search demo_service (Some ''capital'') =
       Inr \<lparr> message = msg_found,
             results = [\<lparr> entry_content = ''Paris is the capital of France'',
                          entry_metadata = ''doc1'', entry_score = 9 \<rparr>] \<rparr>
   \<and> search empty_service (Some ''capital'') = Inr \<lparr> message = msg_none_found, results = [] \<rparr>"
proof -
  have t: "trim ''capital'' \<noteq> []"
    by (simp add: trim_def isWhiteSpace_def)
  from search_at_most_one [OF t, of demo_service]
  obtain r where r: "search demo_service (Some ''capital'') = Inr r"
    and "length (results r) \<le> 1" by blast
  have full: "search demo_service (Some ''capital'') =
       Inr \<lparr> message = msg_found,
             results = [\<lparr> entry_content = ''Paris is the capital of France'',
                          entry_metadata = ''doc1'', entry_score = 9 \<rparr>] \<rparr>"
    using t by (simp add: search_def demo_service_def similaritySearchVectorWithScore_def)
  from search_at_most_one [OF t, of empty_service]
  obtain r' where r': "search empty_service (Some ''capital'') = Inr r'"
    and e: "ranked empty_service (embedQuery empty_service ''capital'') = [] \<longrightarrow> results r' = []"
    by blast
  have "search empty_service (Some ''capital'') = Inr \<lparr> message = msg_none_found, results = [] \<rparr>"
    using t by (simp add: search_def empty_service_def similaritySearchVectorWithScore_def)
  with t full show ?thesis by simp
qed

text \<open>
  The claim as stated fails on a query that is not empty but holds white space only:
  the guard \<^verbatim>\<open>query.trim() === ''\<close> rejects it.
\<close>

theorem search_blank_query_counterexample:
  "''  '' \<noteq> [] \<and> search demo_service (Some ''  '') = Inl BadRequestException"
  by (simp add: search_def trim_def isWhiteSpace_def)

section \<open>Properties of one step\<close>

lemmas reducer_defs = apply_update_def messages_reducer_def sender_reducer_def

lemma run_tool_calls_error:
  "run_tool_calls env i cs = Inl e \<Longrightarrow> e = UnknownToolError \<or> e = ToolExecutionError"
  by (induction cs arbitrary: e) (auto split: option.splits sum.splits)

lemma toolNode_update:
  "toolNode env i state = Inr u \<Longrightarrow> u_sender u = None"
  by (auto simp: toolNode_def Let_def split: sum.splits)

lemma toolNode_error:
  "toolNode env i state = Inl e \<Longrightarrow> e = UnknownToolError \<or> e = ToolExecutionError"
  by (auto simp: toolNode_def Let_def split: sum.splits dest: run_tool_calls_error)

lemma invoke_node_error:
  "invoke_node env i n state = Inl e \<Longrightarrow>
     e \<in> {ModelInvocationError, UnknownToolError, ToolExecutionError}"
  by (cases n)
     (auto simp: Coordinator_node_def Rag_node_def Tavily_node_def
           dest: runAgentNode_error toolNode_error)

lemma invoke_agent_update:
  "n \<noteq> call_tool \<Longrightarrow> invoke_node env i n state = Inr u \<Longrightarrow>
     \<exists>m. u_messages u = [m] \<and> u_sender u = Some (node_name n)"
  by (cases n)
     (auto simp: Coordinator_node_def Rag_node_def Tavily_node_def dest: runAgentNode_update)

lemma step_unfold:
  assumes "step env i n state = Inr (state', d)"
  obtains u where "invoke_node env i n state = Inr u"
    and "state' = apply_update state u"
    and "branch n state' = Inr d"
  using assms by (auto simp: step_def Let_def split: sum.splits)

lemma branch_error:
  assumes u: "invoke_node env i n state = Inr u"
    and b: "branch n (apply_update state u) = Inl e"
  shows "e = InvalidDestination"
proof (cases "n = call_tool")
  case True
  with b show ?thesis by (auto simp: branch_def split: option.splits)
next
  case False
  from invoke_agent_update [OF False u] obtain m where "u_messages u = [m]" by blast
  then have "messages (apply_update state u) \<noteq> []" by (simp add: reducer_defs)
  from router_nonempty [OF this] obtain l where "router (apply_update state u) = Inr l"
    by blast
  with b False show ?thesis by (cases n) (auto simp: branch_def split: option.splits)
qed

lemma step_error:
  "step env i n state = Inl e \<Longrightarrow>
     e \<in> {ModelInvocationError, UnknownToolError, ToolExecutionError, InvalidDestination}"
  by (auto simp: step_def Let_def split: sum.splits dest: invoke_node_error branch_error)

lemma step_appends:
  "step env i n state = Inr (state', d) \<Longrightarrow> \<exists>new. messages state' = messages state @ new"
  by (auto simp: step_def Let_def reducer_defs split: sum.splits)

lemma agent_step_appends_one:
  assumes "n \<noteq> call_tool" and "step env i n state = Inr (state', d)"
  shows "\<exists>m. messages state' = messages state @ [m]"
proof -
  from assms(2) obtain u where u: "invoke_node env i n state = Inr u"
    and s: "state' = apply_update state u" by (rule step_unfold)
  from invoke_agent_update [OF assms(1) u] obtain m where "u_messages u = [m]" by blast
  with s show ?thesis by (simp add: reducer_defs)
qed

text \<open>The tool node is entered from the Rag node or from the Tavily node only, and the
  sender is then the name of that node.\<close>

lemma step_to_call_tool:
  assumes "step env i n state = Inr (state1, Goto call_tool)"
  shows "(n = Rag \<or> n = Tavily) \<and> sender state1 = node_name n"
proof -
  from assms obtain u where u: "invoke_node env i n state = Inr u"
    and s1: "state1 = apply_update state u"
    and b: "branch n state1 = Inr (Goto call_tool)" by (rule step_unfold)
  have n: "n = Rag \<or> n = Tavily"
    using b by (cases n) (auto simp: branch_def split: sum.splits option.splits if_splits)
  then have "n \<noteq> call_tool" by auto
  from invoke_agent_update [OF this u] have "u_sender u = Some (node_name n)" by blast
  with s1 have "sender state1 = node_name n" by (simp add: reducer_defs)
  with n show ?thesis by simp
qed

text \<open>The tool node leaves the sender as it is and follows it.\<close>

lemma step_from_call_tool:
  assumes "step env j call_tool state1 = Inr (state2, d)"
  shows "sender state2 = sender state1
     \<and> ((sender state1 = ''Rag'' \<and> d = Goto Rag) \<or> (sender state1 = ''Tavily'' \<and> d = Goto Tavily))"
proof -
  from assms obtain u where u: "invoke_node env j call_tool state1 = Inr u"
    and s2: "state2 = apply_update state1 u"
    and b: "branch call_tool state2 = Inr d" by (rule step_unfold)
  from u have "u_sender u = None" by (simp add: toolNode_update)
  with s2 have same: "sender state2 = sender state1" by (simp add: reducer_defs)
  from b same have "(sender state1 = ''Rag'' \<and> d = Goto Rag)
      \<or> (sender state1 = ''Tavily'' \<and> d = Goto Tavily)"
    by (auto simp: branch_def split: option.splits if_splits)
  with same show ?thesis by simp
qed

text \<open>When the tool node succeeds, the edge that leaves it resolves: the step is a
  transition to the node that the sender names.\<close>

lemma step_call_tool_succeeds:
  assumes n: "n = Rag \<or> n = Tavily"
    and s: "sender state1 = node_name n"
    and u: "toolNode env j state1 = Inr u"
  shows "step env j call_tool state1 = Inr (apply_update state1 u, Goto n)
     \<and> sender (apply_update state1 u) = sender state1"
proof -
  from u have "u_sender u = None" by (rule toolNode_update)
  then have same: "sender (apply_update state1 u) = sender state1"
    by (simp add: reducer_defs)
  from n s same have "branch call_tool (apply_update state1 u) = Inr (Goto n)"
    by (auto simp: branch_def)
  with u same show ?thesis by (simp add: step_def)
qed

lemma step_call_tool_fails:
  "toolNode env j state1 = Inl e \<Longrightarrow> step env j call_tool state1 = Inl e"
  by (simp add: step_def)

lemma reachable_call_tool_entered:
  assumes "reachable env input j call_tool state1"
  shows "\<exists>i n state. step env i n state = Inr (state1, Goto call_tool)"
  using assms by (cases rule: reachable.cases) (auto simp: entry_point_def)

text \<open>
  Claim C4 (the tool node returns to the caller). When a step of node \<open>n\<close> issues a
  tool call, so that the executor moves to \<open>call_tool\<close>, then \<open>n\<close> is Rag or Tavily and
  is the node named by the sender recorded at that moment; and when the tool node then
  executes, the executor moves to \<open>n\<close> again and to no other node: if the tool node
  returns its messages the step is the transition to \<open>n\<close>, with the sender unchanged,
  and the step fails only when the tool node itself fails. The same holds in every
  configuration of a run in which \<open>call_tool\<close> is about to be invoked.
\<close>

theorem call_tool_returns_to_sender:
  "(step env i n state = Inr (state1, Goto call_tool) \<longrightarrow>
      (n = Rag \<or> n = Tavily) \<and> node_name n = sender state1
      \<and> (\<forall>u. toolNode env j state1 = Inr u \<longrightarrow>
            step env j call_tool state1 = Inr (apply_update state1 u, Goto n)
            \<and> sender (apply_update state1 u) = sender state1)
      \<and> (\<forall>e. toolNode env j state1 = Inl e \<longrightarrow> step env j call_tool state1 = Inl e)
      \<and> (\<forall>state2 d. step env j call_tool state1 = Inr (state2, d) \<longrightarrow>
            d = Goto n \<and> sender state2 = sender state1))
   \<and> (reachable env input j call_tool state1 \<longrightarrow>
      (\<exists>n'. (n' = Rag \<or> n' = Tavily) \<and> node_name n' = sender state1
         \<and> (\<forall>u. toolNode env j state1 = Inr u \<longrightarrow>
               step env j call_tool state1 = Inr (apply_update state1 u, Goto n'))
         \<and> (\<forall>e. toolNode env j state1 = Inl e \<longrightarrow> step env j call_tool state1 = Inl e)))"
proof -
  have issued: "(m = Rag \<or> m = Tavily) \<and> node_name m = sender state1
      \<and> (\<forall>u. toolNode env j state1 = Inr u \<longrightarrow>
            step env j call_tool state1 = Inr (apply_update state1 u, Goto m)
            \<and> sender (apply_update state1 u) = sender state1)
      \<and> (\<forall>e. toolNode env j state1 = Inl e \<longrightarrow> step env j call_tool state1 = Inl e)
      \<and> (\<forall>state2 d. step env j call_tool state1 = Inr (state2, d) \<longrightarrow>
            d = Goto m \<and> sender state2 = sender state1)"
    if st: "step env i' m state' = Inr (state1, Goto call_tool)" for i' m state'
  proof -
    from step_to_call_tool [OF st] have m: "m = Rag \<or> m = Tavily"
      and s: "sender state1 = node_name m" by (rule conjunct1, rule conjunct2)
    from s have s': "node_name m = sender state1" by (rule sym)
    have pos: "\<forall>u. toolNode env j state1 = Inr u \<longrightarrow>
            step env j call_tool state1 = Inr (apply_update state1 u, Goto m)
            \<and> sender (apply_update state1 u) = sender state1"
    proof (intro allI impI)
      fix u
      assume "toolNode env j state1 = Inr u"
      with m s show "step env j call_tool state1 = Inr (apply_update state1 u, Goto m)
            \<and> sender (apply_update state1 u) = sender state1"
        by (rule step_call_tool_succeeds)
    qed
    have neg: "\<forall>e. toolNode env j state1 = Inl e \<longrightarrow> step env j call_tool state1 = Inl e"
    proof (intro allI impI)
      fix e
      assume "toolNode env j state1 = Inl e"
      then show "step env j call_tool state1 = Inl e" by (rule step_call_tool_fails)
    qed
    have only: "\<forall>state2 d. step env j call_tool state1 = Inr (state2, d) \<longrightarrow>
            d = Goto m \<and> sender state2 = sender state1"
    proof (intro allI impI)
      fix state2 d
      assume "step env j call_tool state1 = Inr (state2, d)"
      from step_from_call_tool [OF this] m s
      show "d = Goto m \<and> sender state2 = sender state1" by auto
    qed
    show ?thesis
      apply (rule conjI, rule m)
      apply (rule conjI, rule s')
      apply (rule conjI, rule pos)
      apply (rule conjI, rule neg)
      apply (rule only)
      done
  qed
  have reach: "\<exists>n'. (n' = Rag \<or> n' = Tavily) \<and> node_name n' = sender state1
         \<and> (\<forall>u. toolNode env j state1 = Inr u \<longrightarrow>
               step env j call_tool state1 = Inr (apply_update state1 u, Goto n'))
         \<and> (\<forall>e. toolNode env j state1 = Inl e \<longrightarrow> step env j call_tool state1 = Inl e)"
    if "reachable env input j call_tool state1"
  proof -
    from reachable_call_tool_entered [OF that] obtain i' m state'
      where st: "step env i' m state' = Inr (state1, Goto call_tool)" by (elim exE)
    note I = issued [OF st]
    from I have m: "m = Rag \<or> m = Tavily" by (rule conjunct1)
    from I have s': "node_name m = sender state1"
      by (rule conjunct2 [THEN conjunct1])
    from I have pos: "\<forall>u. toolNode env j state1 = Inr u \<longrightarrow>
            step env j call_tool state1 = Inr (apply_update state1 u, Goto m)
            \<and> sender (apply_update state1 u) = sender state1"
      by (rule conjunct2 [THEN conjunct2, THEN conjunct1])
    from I have neg: "\<forall>e. toolNode env j state1 = Inl e \<longrightarrow>
            step env j call_tool state1 = Inl e"
      by (rule conjunct2 [THEN conjunct2, THEN conjunct2, THEN conjunct1])
    have pos': "\<forall>u. toolNode env j state1 = Inr u \<longrightarrow>
            step env j call_tool state1 = Inr (apply_update state1 u, Goto m)"
    proof (intro allI impI)
      fix u
      assume "toolNode env j state1 = Inr u"
      with pos have "step env j call_tool state1 = Inr (apply_update state1 u, Goto m)
            \<and> sender (apply_update state1 u) = sender state1"
        by (elim allE [of _ u] impE) assumption+
      then show "step env j call_tool state1 = Inr (apply_update state1 u, Goto m)"
        by (rule conjunct1)
    qed
    show ?thesis
      apply (rule exI [of _ m])
      apply (rule conjI, rule m)
      apply (rule conjI, rule s')
      apply (rule conjI, rule pos')
      apply (rule neg)
      done
  qed
  show ?thesis
    apply (rule conjI)
     apply (rule impI)
     apply (erule issued)
    apply (rule impI)
    apply (erule reach)
    done
qed

lemmas eval_defs = run_def recursionLimit_def entry_point_def initial_state_def
  seed_message_def step_def Coordinator_node_def Rag_node_def Tavily_node_def toolNode_def
  tavily_view_def tavily_keeps_def demo_env_def always_def scripted_def reply_def
  runAgentNode_def HumanMessage_def apply_update_def messages_reducer_def sender_reducer_def
  branch_def router_def lastOf_def has_tool_calls_def lookup_tool_def knowledgeTool_def
  search_def trim_def isWhiteSpace_def demo_service_def similaritySearchVectorWithScore_def
  rag_call_def web_call_def

text \<open>
  Both callers. The Rag agent asks for the knowledge search at step 1 and the tool node
  hands control back to Rag; the Tavily agent asks for the web search at step 2 and the
  tool node hands control back to Tavily. The second configuration is one of a run.
\<close>

theorem call_tool_returns_to_sender_witness:
  "step (demo_env (reply ''go'' []) (reply '''' [rag_call]) (reply ''none'' [])) 1 Rag
      (initial_state (Some ''q''))
     = Inr (\<lparr> messages = [seed_message (Some ''q''), reply '''' [rag_call]],
               sender = ''Rag'' \<rparr>, Goto call_tool)
   \<and> step (demo_env (reply ''go'' []) (reply '''' [rag_call]) (reply ''none'' [])) 2 call_tool
      \<lparr> messages = [seed_message (Some ''q''), reply '''' [rag_call]], sender = ''Rag'' \<rparr>
     = Inr (\<lparr> messages = [seed_message (Some ''q''), reply '''' [rag_call],
                 \<lparr> role = tool, content = Text ''Paris is the capital of France'',
                   name = Some ''rag_search'', tool_calls = None,
                   tool_call_id = Some ''call_1'' \<rparr>],
               sender = ''Rag'' \<rparr>, Goto Rag)
   \<and> reachable (demo_env (reply ''go'' []) (reply ''doc'' []) (reply '''' [web_call]))
        (Some ''q'') 3 call_tool
        \<lparr> messages = [seed_message (Some ''q''), named ''Coordinator'' ''go'',
            named ''Rag'' ''doc'', reply '''' [web_call]], sender = ''Tavily'' \<rparr>
   \<and> step (demo_env (reply ''go'' []) (reply ''doc'' []) (reply '''' [web_call])) 3 call_tool
        \<lparr> messages = [seed_message (Some ''q''), named ''Coordinator'' ''go'',
            named ''Rag'' ''doc'', reply '''' [web_call]], sender = ''Tavily'' \<rparr>
     = Inr (\<lparr> messages = [seed_message (Some ''q''), named ''Coordinator'' ''go'',
                 named ''Rag'' ''doc'', reply '''' [web_call],
                 \<lparr> role = tool, content = Text ''Paris'', name = Some ''tavily_search'',
                   tool_calls = None, tool_call_id = Some ''call_2'' \<rparr>],
               sender = ''Tavily'' \<rparr>, Goto Tavily)"
proof -
  let ?q = "seed_message (Some ''q'')"
  let ?envR = "demo_env (reply ''go'' []) (reply '''' [rag_call]) (reply ''none'' [])"
  let ?r1 = "\<lparr> messages = [?q, reply '''' [rag_call]], sender = ''Rag'' \<rparr>"
  let ?ru = "\<lparr> u_messages = [\<lparr> role = tool, content = Text ''Paris is the capital of France'',
                   name = Some ''rag_search'', tool_calls = None,
                   tool_call_id = Some ''call_1'' \<rparr>], u_sender = None \<rparr>"
  let ?envT = "demo_env (reply ''go'' []) (reply ''doc'' []) (reply '''' [web_call])"
  let ?t1 = "\<lparr> messages = [?q, named ''Coordinator'' ''go''], sender = ''Coordinator'' \<rparr>"
  let ?t2 = "\<lparr> messages = [?q, named ''Coordinator'' ''go'', named ''Rag'' ''doc''],
               sender = ''Rag'' \<rparr>"
  let ?t3 = "\<lparr> messages = [?q, named ''Coordinator'' ''go'', named ''Rag'' ''doc'',
                 reply '''' [web_call]], sender = ''Tavily'' \<rparr>"
  let ?tu = "\<lparr> u_messages = [\<lparr> role = tool, content = Text ''Paris'',
                   name = Some ''tavily_search'', tool_calls = None,
                   tool_call_id = Some ''call_2'' \<rparr>], u_sender = None \<rparr>"
  note defs = eval_defs named_def
  \<comment> \<open>Rag issues the call; the tool node answers; the theorem gives the transition.\<close>
  have a: "step ?envR 1 Rag (initial_state (Some ''q'')) = Inr (?r1, Goto call_tool)"
    by (simp add: defs)
  have ra: "toolNode ?envR 2 ?r1 = Inr ?ru"
    by (simp add: defs)
  note R = call_tool_returns_to_sender
    [of ?envR 1 Rag "initial_state (Some ''q'')" ?r1 2 "Some ''q''"]
  from R [THEN conjunct1, THEN mp, OF a]
  have "\<forall>u. toolNode ?envR 2 ?r1 = Inr u \<longrightarrow>
          step ?envR 2 call_tool ?r1 = Inr (apply_update ?r1 u, Goto Rag)
          \<and> sender (apply_update ?r1 u) = sender ?r1"
    by (rule conjunct2 [THEN conjunct2, THEN conjunct1])
  from this [THEN spec, THEN mp, OF ra]
  have "step ?envR 2 call_tool ?r1 = Inr (apply_update ?r1 ?ru, Goto Rag)"
    by (rule conjunct1)
  then have b: "step ?envR 2 call_tool ?r1 =
      Inr (\<lparr> messages = [?q, reply '''' [rag_call],
                 \<lparr> role = tool, content = Text ''Paris is the capital of France'',
                   name = Some ''rag_search'', tool_calls = None,
                   tool_call_id = Some ''call_1'' \<rparr>],
               sender = ''Rag'' \<rparr>, Goto Rag)"
    by (simp add: reducer_defs)
  \<comment> \<open>Tavily issues the call in a configuration of a run.\<close>
  have r0: "reachable ?envT (Some ''q'') 0 Coordinator (initial_state (Some ''q''))"
    using reachable.at_start [of ?envT "Some ''q''"] by (simp add: entry_point_def)
  have "step ?envT 0 Coordinator (initial_state (Some ''q'')) = Inr (?t1, Goto Rag)"
    by (simp add: defs)
  from reachable.after_step [OF r0 this]
  have r1: "reachable ?envT (Some ''q'') 1 Rag ?t1" by simp
  have "step ?envT 1 Rag ?t1 = Inr (?t2, Goto Tavily)"
    by (simp add: defs)
  from reachable.after_step [OF r1 this]
  have r2: "reachable ?envT (Some ''q'') 2 Tavily ?t2" by (simp add: eval_nat_numeral)
  have c: "step ?envT 2 Tavily ?t2 = Inr (?t3, Goto call_tool)"
    by (simp add: defs)
  from reachable.after_step [OF r2 c]
  have r3: "reachable ?envT (Some ''q'') 3 call_tool ?t3" by (simp add: eval_nat_numeral)
  have ta: "toolNode ?envT 3 ?t3 = Inr ?tu"
    by (simp add: defs)
  note T = call_tool_returns_to_sender [of ?envT 2 Tavily ?t2 ?t3 3 "Some ''q''"]
  from T [THEN conjunct2, THEN mp, OF r3] obtain n'
    where n': "node_name n' = sender ?t3"
      and p: "\<forall>u. toolNode ?envT 3 ?t3 = Inr u \<longrightarrow>
          step ?envT 3 call_tool ?t3 = Inr (apply_update ?t3 u, Goto n')"
    by (elim exE conjE)
  from n' have "n' = Tavily" by (cases n') simp_all
  with p [THEN spec, THEN mp, OF ta]
  have "step ?envT 3 call_tool ?t3 = Inr (apply_update ?t3 ?tu, Goto Tavily)" by simp
  then have d: "step ?envT 3 call_tool ?t3 =
      Inr (\<lparr> messages = [?q, named ''Coordinator'' ''go'', named ''Rag'' ''doc'',
                 reply '''' [web_call],
                 \<lparr> role = tool, content = Text ''Paris'', name = Some ''tavily_search'',
                   tool_calls = None, tool_call_id = Some ''call_2'' \<rparr>],
               sender = ''Tavily'' \<rparr>, Goto Tavily)"
    by (simp add: reducer_defs)
  from a b r3 d show ?thesis by simp
qed

section \<open>Properties of the configurations of a run\<close>

text \<open>
  Claim C10 (the sender when the tool node is invoked). In every configuration that a
  run started at START can reach, if the node about to be invoked is \<open>call_tool\<close> then
  the sender is \<open>Rag\<close> or \<open>Tavily\<close>: the map of the edge that leaves the tool node is
  never asked for another sender.
\<close>

theorem call_tool_sender_mapped:
  assumes "reachable env input i call_tool state"
  shows "sender state = ''Rag'' \<or> sender state = ''Tavily''"
proof -
  have "reachable env input i n state \<Longrightarrow> n = call_tool \<Longrightarrow>
      sender state = ''Rag'' \<or> sender state = ''Tavily''" for n
  proof (induction rule: reachable.induct)
    case at_start
    then show ?case by (simp add: entry_point_def)
  next
    case (after_step i n state state' n')
    then have "step env i n state = Inr (state', Goto call_tool)" by simp
    from step_to_call_tool [OF this] show ?case by auto
  qed
  with assms show ?thesis by simp
qed

theorem call_tool_sender_mapped_witness:
  "reachable (demo_env (reply ''go'' []) (reply '''' [rag_call]) (reply ''none'' []))
      (Some ''q'') 2 call_tool
      \<lparr> messages = [seed_message (Some ''q''),
           \<lparr> role = user, content = Text ''go'', name = Some ''Coordinator'',
             tool_calls = None, tool_call_id = None \<rparr>,
           reply '''' [rag_call]],
        sender = ''Rag'' \<rparr>
   \<and> sender \<lparr> messages = [seed_message (Some ''q''),
           \<lparr> role = user, content = Text ''go'', name = Some ''Coordinator'',
             tool_calls = None, tool_call_id = None \<rparr>,
           reply '''' [rag_call]],
        sender = ''Rag'' \<rparr> = ''Rag''"
proof -
  let ?env = "demo_env (reply ''go'' []) (reply '''' [rag_call]) (reply ''none'' [])"
  let ?go = "\<lparr> role = user, content = Text ''go'', name = Some ''Coordinator'',
             tool_calls = None, tool_call_id = None \<rparr>"
  let ?s1 = "\<lparr> messages = [seed_message (Some ''q''), ?go], sender = ''Coordinator'' \<rparr>"
  let ?s2 = "\<lparr> messages = [seed_message (Some ''q''), ?go, reply '''' [rag_call]],
               sender = ''Rag'' \<rparr>"
  have r0: "reachable ?env (Some ''q'') 0 Coordinator (initial_state (Some ''q''))"
    using reachable.at_start [of ?env "Some ''q''"] by (simp add: entry_point_def)
  have "step ?env 0 Coordinator (initial_state (Some ''q'')) = Inr (?s1, Goto Rag)"
    by (simp add: eval_defs)
  from reachable.after_step [OF r0 this]
  have r1: "reachable ?env (Some ''q'') 1 Rag ?s1" by simp
  have "step ?env 1 Rag ?s1 = Inr (?s2, Goto call_tool)"
    by (simp add: eval_defs)
  from reachable.after_step [OF r1 this]
  have r2: "reachable ?env (Some ''q'') 2 call_tool ?s2" by (simp add: eval_nat_numeral)
  from call_tool_sender_mapped [OF r2] have "sender ?s2 = ''Rag''" by simp
  with r2 show ?thesis by simp
qed

lemma reachable_extends_seed:
  "reachable env input i n state \<Longrightarrow> prefix (messages (initial_state input)) (messages state)"
proof (induction rule: reachable.induct)
  case at_start
  show ?case by simp
next
  case (after_step i n state state' n')
  from step_appends [OF after_step.hyps(2)]
  have "prefix (messages state) (messages state')" by (auto simp: prefix_def)
  with after_step.IH show ?case by (rule prefix_order.trans)
qed

section \<open>Properties of the executor\<close>

text \<open>Every proof about \<open>exec\<close> follows its recursion: the budget, then the outcome of
  the step.\<close>

lemma exec_cases:
  obtains (Fail) e where "step env i n state = Inl e"
  | (Done) state' where "step env i n state = Inr (state', END)"
  | (Move) state' n' where "step env i n state = Inr (state', Goto n')"
proof (cases "step env i n state")
  case (Inl e)
  then show ?thesis by (rule Fail)
next
  case (Inr p)
  obtain state' d where p: "p = (state', d)" by (cases p)
  show ?thesis
  proof (cases d)
    case END
    with Inr p show ?thesis by (auto intro: Done)
  next
    case (Goto n')
    with Inr p show ?thesis by (auto intro: Move)
  qed
qed

lemma exec_steps_le: "fst (exec env k i n state) \<le> i + k"
proof (induction k arbitrary: i n state)
  case 0
  show ?case by simp
next
  case (Suc k)
  show ?case
  proof (cases rule: exec_cases [of env i n state])
    case (Fail e)
    then show ?thesis by simp
  next
    case (Done state')
    then show ?thesis by simp
  next
    case (Move state' n')
    with Suc.IH [of "Suc i" n' state'] show ?thesis by simp
  qed
qed

lemma exec_steps_ge: "0 < k \<Longrightarrow> i < fst (exec env k i n state)"
proof (induction k arbitrary: i n state)
  case 0
  then show ?case by simp
next
  case (Suc k)
  show ?case
  proof (cases rule: exec_cases [of env i n state])
    case (Fail e)
    then show ?thesis by simp
  next
    case (Done state')
    then show ?thesis by simp
  next
    case (Move state' n')
    show ?thesis
    proof (cases k)
      case 0
      with Move show ?thesis by simp
    next
      case (Suc k')
      with Suc.IH [of "Suc i" n' state'] Move show ?thesis by simp
    qed
  qed
qed

lemma exec_error:
  "snd (exec env k i n state) = Inl e \<Longrightarrow>
     e \<in> {RecursionLimitExceeded, ModelInvocationError, UnknownToolError,
          ToolExecutionError, InvalidDestination}"
proof (induction k arbitrary: i n state)
  case 0
  then show ?case by simp
next
  case (Suc k)
  show ?case
  proof (cases rule: exec_cases [of env i n state])
    case (Fail e')
    with Suc.prems step_error [OF Fail] show ?thesis by auto
  next
    case (Done state')
    with Suc.prems show ?thesis by simp
  next
    case (Move state' n')
    with Suc.prems Suc.IH [of "Suc i" n' state'] show ?thesis by simp
  qed
qed

text \<open>The budget is used up exactly when the run fails on the limit.\<close>

lemma exec_limit_exact:
  "snd (exec env k i n state) = Inl RecursionLimitExceeded \<Longrightarrow>
     fst (exec env k i n state) = i + k"
proof (induction k arbitrary: i n state)
  case 0
  show ?case by simp
next
  case (Suc k)
  show ?case
  proof (cases rule: exec_cases [of env i n state])
    case (Fail e)
    with Suc.prems step_error [OF Fail] show ?thesis by auto
  next
    case (Done state')
    with Suc.prems show ?thesis by simp
  next
    case (Move state' n')
    with Suc.prems Suc.IH [of "Suc i" n' state'] show ?thesis by simp
  qed
qed

text \<open>Only the Coordinator has an edge to \<open>END\<close>, and it is taken on the text
  FINAL ANSWER only.\<close>

lemma branch_END:
  "branch n state = Inr END \<Longrightarrow> n = Coordinator \<and> router state = Inr ''end''"
  by (cases n) (auto simp: branch_def split: sum.splits option.splits if_splits)

lemma router_end_content:
  "router state = Inr ''end'' \<Longrightarrow>
     \<exists>c. messages state \<noteq> [] \<and> content (last (messages state)) = Text c
        \<and> str_includes c ''FINAL ANSWER''"
  by (auto simp: router_def lastOf_def Let_def split: if_splits option.splits content.splits)

lemma runAgentNode_content:
  "runAgentNode agent nm state = Inr u \<Longrightarrow>
     \<exists>r x. agent state = Some r \<and> u_messages u = [x] \<and> content x = content r"
  by (auto simp: runAgentNode_def Let_def HumanMessage_def split: option.splits)

lemma step_END:
  assumes "step env i n state = Inr (state', END)"
  shows "n = Coordinator \<and> (\<exists>m c. coordinatorAgent env i state = Some m \<and> content m = Text c
           \<and> str_includes c ''FINAL ANSWER'')"
proof -
  from assms obtain u where u: "invoke_node env i n state = Inr u"
    and s: "state' = apply_update state u"
    and b: "branch n state' = Inr END" by (rule step_unfold)
  from branch_END [OF b] have n: "n = Coordinator" and r: "router state' = Inr ''end''"
    by simp_all
  from router_end_content [OF r] obtain c where c: "content (last (messages state')) = Text c"
    and inc: "str_includes c ''FINAL ANSWER''" by (elim exE conjE)
  from u n have "runAgentNode (coordinatorAgent env i) ''Coordinator'' state = Inr u"
    by (simp add: Coordinator_node_def)
  from runAgentNode_content [OF this] obtain m x where m: "coordinatorAgent env i state = Some m"
    and x: "u_messages u = [x]" and cx: "content x = content m" by (elim exE conjE)
  from s x cx have "content (last (messages state')) = content m" by (simp add: reducer_defs)
  with c have "content m = Text c" by simp
  with m inc have "\<exists>m c. coordinatorAgent env i state = Some m \<and> content m = Text c
           \<and> str_includes c ''FINAL ANSWER''" by (intro exI conjI)
  with n show ?thesis by (rule conjI)
qed

lemma exec_success:
  "snd (exec env k i n state) = Inr final \<Longrightarrow>
     \<exists>j s m c. coordinatorAgent env j s = Some m \<and> content m = Text c
        \<and> str_includes c ''FINAL ANSWER''"
proof (induction k arbitrary: i n state)
  case 0
  then show ?case by simp
next
  case (Suc k)
  show ?case
  proof (cases rule: exec_cases [of env i n state])
    case (Fail e)
    with Suc.prems show ?thesis by simp
  next
    case (Done state')
    from step_END [OF Done] show ?thesis by blast
  next
    case (Move state' n')
    with Suc.prems Suc.IH [of "Suc i" n' state'] show ?thesis by simp
  qed
qed

lemma exec_extends_log:
  "snd (exec env k i n state) = Inr final \<Longrightarrow> prefix (messages state) (messages final)"
proof (induction k arbitrary: i n state)
  case 0
  then show ?case by simp
next
  case (Suc k)
  show ?case
  proof (cases rule: exec_cases [of env i n state])
    case (Fail e)
    with Suc.prems show ?thesis by simp
  next
    case (Done state')
    from step_appends [OF Done] have "prefix (messages state) (messages state')"
      by (auto simp: prefix_def)
    with Done Suc.prems show ?thesis by simp
  next
    case (Move state' n')
    from step_appends [OF Move] have pre: "prefix (messages state) (messages state')"
      by (auto simp: prefix_def)
    from Move Suc.prems Suc.IH [of "Suc i" n' state']
    have "prefix (messages state') (messages final)" by simp
    with pre show ?thesis by (rule prefix_order.trans)
  qed
qed

text \<open>The configurations are those of \<open>run\<close>: from a configuration within the budget,
  the run is the rest of the execution from there.\<close>

lemma reachable_on_run:
  "reachable env input i n state \<Longrightarrow> i \<le> recursionLimit \<Longrightarrow>
     run env input = exec env (recursionLimit - i) i n state"
proof (induction rule: reachable.induct)
  case at_start
  show ?case by (simp add: run_def)
next
  case (after_step i n state state' n')
  from after_step.prems have le: "i \<le> recursionLimit"
    and k: "recursionLimit - i = Suc (recursionLimit - Suc i)" by simp_all
  from after_step.IH [OF le]
  have "run env input = exec env (Suc (recursionLimit - Suc i)) i n state"
    by (simp only: k)
  with after_step.hyps(2) show ?case by simp
qed

text \<open>Quiet models keep the run on the cycle Coordinator, Rag, Tavily.\<close>

lemma quiet_agent_continue:
  assumes "agent state0 = Some m"
    and "\<not> has_tool_calls m"
    and "\<forall>c. content m = Text c \<longrightarrow> \<not> str_includes c ''FINAL ANSWER''"
    and "runAgentNode agent nm state0 = Inr u"
  shows "router (apply_update state u) = Inr ''continue''"
  using assms
  by (auto simp: runAgentNode_def Let_def reducer_defs router_def lastOf_def HumanMessage_def
        has_tool_calls_def split: option.splits if_splits content.splits)

lemma quiet_agent_node:
  assumes "quiet agent"
  shows "\<exists>u. runAgentNode (agent i) nm state0 = Inr u
           \<and> router (apply_update state u) = Inr ''continue''"
proof -
  from assms obtain m where m: "agent i state0 = Some m" "\<not> has_tool_calls m"
    "\<forall>c. content m = Text c \<longrightarrow> \<not> str_includes c ''FINAL ANSWER''"
    unfolding quiet_def by blast
  then obtain u where u: "runAgentNode (agent i) nm state0 = Inr u"
    by (auto simp: runAgentNode_def Let_def)
  from quiet_agent_continue [OF m u] u show ?thesis by blast
qed

lemma quiet_step:
  assumes q: "quiet (coordinatorAgent env)" "quiet (knowledgeAgent env)"
      "quiet (tavilyAgent env)"
    and n: "n \<noteq> call_tool"
  shows "\<exists>state'. step env i n state = Inr (state', Goto (continue_edge n))"
proof (cases n)
  case Coordinator
  from quiet_agent_node [OF q(1), of i "''Coordinator''" state state] Coordinator
  show ?thesis by (auto simp: step_def Coordinator_node_def branch_def Let_def)
next
  case Rag
  from quiet_agent_node [OF q(2), of i "''Rag''" state state] Rag
  show ?thesis by (auto simp: step_def Rag_node_def branch_def Let_def)
next
  case Tavily
  from quiet_agent_node [OF q(3), of i "''Tavily''" "tavily_view state" state] Tavily
  show ?thesis by (auto simp: step_def Tavily_node_def branch_def Let_def)
next
  case call_tool
  with n show ?thesis by simp
qed

lemma quiet_exec:
  assumes q: "quiet (coordinatorAgent env)" "quiet (knowledgeAgent env)"
      "quiet (tavilyAgent env)"
  shows "n \<noteq> call_tool \<Longrightarrow> exec env k i n state = (i + k, Inl RecursionLimitExceeded)"
proof (induction k arbitrary: i n state)
  case 0
  show ?case by simp
next
  case (Suc k)
  from quiet_step [OF q Suc.prems] obtain state'
    where s: "step env i n state = Inr (state', Goto (continue_edge n))" by blast
  have "continue_edge n \<noteq> call_tool" using Suc.prems by (cases n) auto
  from Suc.IH [OF this, of "Suc i" state'] s show ?case by simp
qed

lemma quiet_always:
  assumes "\<not> has_tool_calls m"
    and "\<forall>c. content m = Text c \<longrightarrow> \<not> str_includes c ''FINAL ANSWER''"
  shows "quiet (always m)"
  using assms by (simp add: quiet_def always_def)

text \<open>
  Claim C7 (the log is only ever extended). A step leaves the messages it found in place
  and in order and adds its own after them; the Tavily node, which shows its agent a
  filtered copy, still adds exactly one message after the whole unfiltered log; the log
  of a finished run and the log of every configuration of a run start with the log they
  began from.
\<close>

theorem log_only_extended:
  "(step env i n state = Inr (state', d) \<longrightarrow> (\<exists>new. messages state' = messages state @ new))
   \<and> (step env i Tavily state = Inr (state', d) \<longrightarrow>
        messages (tavily_view state) = filter tavily_keeps (messages state)
        \<and> (\<exists>m. messages state' = messages state @ [m]))
   \<and> (snd (exec env k i n state) = Inr final \<longrightarrow> prefix (messages state) (messages final))
   \<and> (reachable env input i n state \<longrightarrow>
        prefix (messages (initial_state input)) (messages state))"
proof -
  have "step env i Tavily state = Inr (state', d) \<Longrightarrow> \<exists>m. messages state' = messages state @ [m]"
    by (rule agent_step_appends_one) simp_all
  then show ?thesis
    using step_appends [of env i n state state' d] exec_extends_log [of env k i n state final]
      reachable_extends_seed [of env input i n state]
    by (simp add: messages_tavily_view)
qed

text \<open>A log that holds an answer of the Rag agent, two steps into a run: the view of the
  Tavily agent drops that answer, the log after the step of the Tavily node and the log
  at the end of the run still have it.\<close>

theorem log_only_extended_witness:
  "step direct_env 2 Tavily
      \<lparr> messages = [seed_message (Some ''q''), named ''Coordinator'' ''go'',
          named ''Rag'' ''doc''], sender = ''Rag'' \<rparr>
     = Inr (\<lparr> messages = [seed_message (Some ''q''), named ''Coordinator'' ''go'',
                 named ''Rag'' ''doc'', named ''Tavily'' ''web''],
               sender = ''Tavily'' \<rparr>, Goto Coordinator)
   \<and> messages (tavily_view
        \<lparr> messages = [seed_message (Some ''q''), named ''Coordinator'' ''go'',
            named ''Rag'' ''doc''], sender = ''Rag'' \<rparr>)
       = [seed_message (Some ''q''), named ''Coordinator'' ''go'']
   \<and> exec direct_env 2 2 Tavily
        \<lparr> messages = [seed_message (Some ''q''), named ''Coordinator'' ''go'',
            named ''Rag'' ''doc''], sender = ''Rag'' \<rparr>
       = (4, Inr \<lparr> messages = [seed_message (Some ''q''), named ''Coordinator'' ''go'',
                      named ''Rag'' ''doc'', named ''Tavily'' ''web'',
                      named ''Coordinator'' ''Paris. FINAL ANSWER''],
                    sender = ''Coordinator'' \<rparr>)
   \<and> reachable direct_env (Some ''q'') 2 Tavily
        \<lparr> messages = [seed_message (Some ''q''), named ''Coordinator'' ''go'',
            named ''Rag'' ''doc''], sender = ''Rag'' \<rparr>
   \<and> prefix [seed_message (Some ''q''), named ''Coordinator'' ''go'', named ''Rag'' ''doc'']
        [seed_message (Some ''q''), named ''Coordinator'' ''go'', named ''Rag'' ''doc'',
         named ''Tavily'' ''web'', named ''Coordinator'' ''Paris. FINAL ANSWER'']"
proof -
  let ?q = "seed_message (Some ''q'')"
  let ?s1 = "\<lparr> messages = [?q, named ''Coordinator'' ''go''], sender = ''Coordinator'' \<rparr>"
  let ?s = "\<lparr> messages = [?q, named ''Coordinator'' ''go'', named ''Rag'' ''doc''],
              sender = ''Rag'' \<rparr>"
  let ?s' = "\<lparr> messages = [?q, named ''Coordinator'' ''go'', named ''Rag'' ''doc'',
                 named ''Tavily'' ''web''], sender = ''Tavily'' \<rparr>"
  let ?final = "\<lparr> messages = [?q, named ''Coordinator'' ''go'', named ''Rag'' ''doc'',
                 named ''Tavily'' ''web'', named ''Coordinator'' ''Paris. FINAL ANSWER''],
                 sender = ''Coordinator'' \<rparr>"
  note defs = eval_defs direct_env_def go_then_conclude_def named_def
  have st: "step direct_env 2 Tavily ?s = Inr (?s', Goto Coordinator)"
    by (simp add: defs)
  have ex: "exec direct_env 2 2 Tavily ?s = (4, Inr ?final)"
    by (simp add: defs eval_nat_numeral)
  have r0: "reachable direct_env (Some ''q'') 0 Coordinator (initial_state (Some ''q''))"
    using reachable.at_start [of direct_env "Some ''q''"] by (simp add: entry_point_def)
  have "step direct_env 0 Coordinator (initial_state (Some ''q'')) = Inr (?s1, Goto Rag)"
    by (simp add: defs)
  from reachable.after_step [OF r0 this]
  have r1: "reachable direct_env (Some ''q'') 1 Rag ?s1" by simp
  have "step direct_env 1 Rag ?s1 = Inr (?s, Goto Tavily)"
    by (simp add: defs)
  from reachable.after_step [OF r1 this]
  have r2: "reachable direct_env (Some ''q'') 2 Tavily ?s" by (simp add: eval_nat_numeral)
  from ex have ex': "snd (exec direct_env 2 2 Tavily ?s) = Inr ?final" by simp
  from log_only_extended
    [of direct_env 2 Tavily ?s ?s' "Goto Coordinator" 2 ?final "Some ''q''"] st ex' r2
  have view: "messages (tavily_view ?s) = filter tavily_keeps (messages ?s)"
    and pre: "prefix (messages ?s) (messages ?final)" by simp_all
  from view have "messages (tavily_view ?s) = [?q, named ''Coordinator'' ''go'']"
    by (simp add: tavily_keeps_def seed_message_def named_def)
  with st ex r2 pre show ?thesis by simp
qed

text \<open>
  Claim C1 (every run terminates), as the code has it. A run takes at most 25 steps, the
  recursion limit. It ends in one of three ways: it reaches \<open>END\<close>; a step fails (the
  model or a tool fails, a tool is unknown, or the router's label has no entry in the edge
  map of the current node) and the run fails with that error; or the budget is used up
  and the run fails with \<open>RecursionLimitExceeded\<close>, which happens after exactly 25 steps.
  When the Coordinator's model never writes FINAL ANSWER the run never reaches \<open>END\<close>;
  when the three models are quiet the run fails with \<open>RecursionLimitExceeded\<close> at
  step 25.
\<close>

theorem run_terminates_within_limit:
  "fst (run env input) \<le> recursionLimit
   \<and> (snd (run env input) = Inl RecursionLimitExceeded \<longrightarrow> fst (run env input) = recursionLimit)
   \<and> (\<forall>e. snd (run env input) = Inl e \<longrightarrow>
         e \<in> {RecursionLimitExceeded, ModelInvocationError, UnknownToolError,
              ToolExecutionError, InvalidDestination})
   \<and> ((\<forall>i s m c. coordinatorAgent env i s = Some m \<longrightarrow> content m = Text c \<longrightarrow>
          \<not> str_includes c ''FINAL ANSWER'') \<longrightarrow> isl (snd (run env input)))
   \<and> (quiet (coordinatorAgent env) \<and> quiet (knowledgeAgent env) \<and> quiet (tavilyAgent env) \<longrightarrow>
        run env input = (recursionLimit, Inl RecursionLimitExceeded))"
proof -
  let ?s = "initial_state input"
  have a: "fst (run env input) \<le> recursionLimit"
    using exec_steps_le [of env recursionLimit 0 entry_point ?s] by (simp add: run_def)
  have b: "snd (run env input) = Inl RecursionLimitExceeded \<Longrightarrow>
      fst (run env input) = recursionLimit"
    using exec_limit_exact [of env recursionLimit 0 entry_point ?s] by (simp add: run_def)
  have c: "snd (run env input) = Inl e \<Longrightarrow>
      e \<in> {RecursionLimitExceeded, ModelInvocationError, UnknownToolError,
           ToolExecutionError, InvalidDestination}" for e
    using exec_error [of env recursionLimit 0 entry_point ?s e] by (simp add: run_def)
  have d: "isl (snd (run env input))"
    if "\<forall>i s m c. coordinatorAgent env i s = Some m \<longrightarrow> content m = Text c \<longrightarrow>
          \<not> str_includes c ''FINAL ANSWER''"
  proof (cases "snd (run env input)")
    case (Inl e)
    then show ?thesis by simp
  next
    case (Inr final)
    then have "snd (exec env recursionLimit 0 entry_point ?s) = Inr final"
      by (simp add: run_def)
    from exec_success [OF this] that show ?thesis by blast
  qed
  have e: "run env input = (recursionLimit, Inl RecursionLimitExceeded)"
    if "quiet (coordinatorAgent env)" "quiet (knowledgeAgent env)" "quiet (tavilyAgent env)"
    using quiet_exec [OF that, of entry_point recursionLimit 0 ?s]
    by (simp add: run_def entry_point_def)
  from a b c d e show ?thesis by blast
qed

theorem run_terminates_within_limit_witness:
  "quiet (coordinatorAgent (demo_env (reply ''go'' []) (reply ''none'' []) (reply ''none'' [])))
   \<and> quiet (knowledgeAgent (demo_env (reply ''go'' []) (reply ''none'' []) (reply ''none'' [])))
   \<and> quiet (tavilyAgent (demo_env (reply ''go'' []) (reply ''none'' []) (reply ''none'' [])))
   \<and> run (demo_env (reply ''go'' []) (reply ''none'' []) (reply ''none'' [])) (Some ''q'')
       = (25, Inl RecursionLimitExceeded)
   \<and> isl (snd (run (demo_env (reply ''go'' []) (reply ''none'' []) (reply ''none'' []))
       (Some ''q'')))"
proof -
  let ?env = "demo_env (reply ''go'' []) (reply ''none'' []) (reply ''none'' [])"
  have go: "quiet (always (reply ''go'' []))"
    by (rule quiet_always) (simp_all add: reply_def has_tool_calls_def)
  have none: "quiet (always (reply ''none'' []))"
    by (rule quiet_always) (simp_all add: reply_def has_tool_calls_def)
  from go none have q: "quiet (coordinatorAgent ?env)" "quiet (knowledgeAgent ?env)"
    "quiet (tavilyAgent ?env)" by (simp_all add: demo_env_def)
  with run_terminates_within_limit [of ?env "Some ''q''"]
  have r: "run ?env (Some ''q'') = (recursionLimit, Inl RecursionLimitExceeded)" by blast
  then have "isl (snd (run ?env (Some ''q'')))" by simp
  with q r show ?thesis by (simp add: recursionLimit_def)
qed

text \<open>
  The claim as stated fails: when the Rag agent's model answers with the text FINAL
  ANSWER, the router says \<open>end\<close>, the edge map of the Rag node has no such label, and the
  run fails at its second step with an error that is not \<open>RecursionLimitExceeded\<close>.
\<close>

theorem run_unmapped_label_counterexample:
  "run (demo_env (reply ''go'' []) (reply ''FINAL ANSWER'' []) (reply ''none'' [])) (Some ''q'')
     = (2, Inl InvalidDestination)"
  by (simp add: eval_defs eval_nat_numeral)

lemma exec_never_input_error: "snd (exec env k i n state) \<noteq> Inl InputError"
  using exec_error [of env k i n state InputError] by auto

text \<open>
  Claim C8 (an empty or missing question), as the code has it. The entry point does not
  examine the question: for every question, the empty and the missing one included, it
  seeds the state with one user message that carries the question and starts the
  executor, which takes at least one step; no run fails with \<open>InputError\<close>, and the log
  of a run that reaches \<open>END\<close> starts with the seed message.
\<close>

theorem run_accepts_every_question:
  "1 \<le> fst (run env input)
   \<and> snd (run env input) \<noteq> Inl InputError
   \<and> reachable env input 0 Coordinator \<lparr> messages = [seed_message input], sender = ''user'' \<rparr>
   \<and> (\<forall>final. snd (run env input) = Inr final \<longrightarrow>
         prefix [seed_message input] (messages final))"
proof -
  have a: "1 \<le> fst (run env input)"
    using exec_steps_ge [of recursionLimit 0 env entry_point "initial_state input"]
    by (simp add: run_def recursionLimit_def)
  have b: "snd (run env input) \<noteq> Inl InputError"
    by (simp add: run_def exec_never_input_error)
  have c: "reachable env input 0 Coordinator
      \<lparr> messages = [seed_message input], sender = ''user'' \<rparr>"
    using reachable.at_start [of env input] by (simp add: entry_point_def initial_state_def)
  have d: "prefix [seed_message input] (messages final)"
    if "snd (run env input) = Inr final" for final
    using exec_extends_log [of env recursionLimit 0 entry_point "initial_state input" final] that
    by (simp add: run_def initial_state_def)
  from a b c d show ?thesis by blast
qed

theorem run_accepts_every_question_witness:
  "run (demo_env (reply ''FINAL ANSWER'' []) (reply ''none'' []) (reply ''none'' [])) None
     = (1, Inr \<lparr> messages = [seed_message None,
                    \<lparr> role = user, content = Text ''FINAL ANSWER'',
                      name = Some ''Coordinator'', tool_calls = None,
                      tool_call_id = None \<rparr>],
                  sender = ''Coordinator'' \<rparr>)
   \<and> prefix [seed_message None]
        [seed_message None,
         \<lparr> role = user, content = Text ''FINAL ANSWER'', name = Some ''Coordinator'',
           tool_calls = None, tool_call_id = None \<rparr>]"
proof -
  let ?env = "demo_env (reply ''FINAL ANSWER'' []) (reply ''none'' []) (reply ''none'' [])"
  let ?final = "\<lparr> messages = [seed_message None,
                    \<lparr> role = user, content = Text ''FINAL ANSWER'',
                      name = Some ''Coordinator'', tool_calls = None,
                      tool_call_id = None \<rparr>],
                  sender = ''Coordinator'' \<rparr>"
  have r: "run ?env None = (1, Inr ?final)"
    by (simp add: eval_defs eval_nat_numeral)
  then have "snd (run ?env None) = Inr ?final" by simp
  with run_accepts_every_question [of ?env None]
  have "prefix [seed_message None] (messages ?final)" by blast
  with r show ?thesis by simp
qed

text \<open>
  The claim as stated fails: with the empty question the run starts, the Coordinator is
  invoked, and here the run reaches \<open>END\<close> after one step; nothing is rejected.
\<close>

theorem run_empty_question_counterexample:
  "run (demo_env (reply ''FINAL ANSWER'' []) (reply ''none'' []) (reply ''none'' [])) (Some '''')
     = (1, Inr \<lparr> messages = [\<lparr> role = user, content = Text '''', name = None,
                      tool_calls = None, tool_call_id = None \<rparr>,
                    \<lparr> role = user, content = Text ''FINAL ANSWER'',
                      name = Some ''Coordinator'', tool_calls = None,
                      tool_call_id = None \<rparr>],
                  sender = ''Coordinator'' \<rparr>)"
  by (simp add: eval_defs eval_nat_numeral)

section \<open>Two whole runs\<close>

text \<open>
  A run through both tools: eight steps, in the order Coordinator, Rag, tool node, Rag,
  Tavily, tool node, Tavily, Coordinator. The log holds the question, then who wrote each
  message and in which role.
\<close>

lemma scenario_full_run:
  "fst (run scenario_env (Some ''capital of France?'')) = 8
   \<and> map_sum id (\<lambda>final. (map (\<lambda>m. (role m, name m)) (messages final), sender final))
        (snd (run scenario_env (Some ''capital of France?'')))
     = Inr ([(user, None), (user, Some ''Coordinator''), (assistant, None),
             (tool, Some ''rag_search''), (user, Some ''Rag''), (assistant, None),
             (tool, Some ''tavily_search''), (user, Some ''Tavily''),
             (user, Some ''Coordinator'')], ''Coordinator'')"
  by (simp add: eval_defs scenario_env_def go_then_conclude_def eval_nat_numeral)

text \<open>A call of a tool that is not registered fails the run at the tool node.\<close>

lemma scenario_unknown_tool:
  "run (demo_env (reply ''go'' [])
          (reply '''' [\<lparr> tc_id = ''call_3'', tc_name = ''calculator'', tc_args = ''1+1'' \<rparr>])
          (reply ''none'' [])) (Some ''q'')
     = (3, Inl UnknownToolError)"
  by (simp add: eval_defs eval_nat_numeral)

end
